theory Spec2Isabelle
  imports Main
begin

section \<open>The expression compiler of examples/StringToAGraphExample.py\<close>

text \<open>
  The example module compiles a list of infix tokens into a command array in two steps:
  \<^verbatim>\<open>convert_to_postfix\<close> (a shunting-yard conversion) and \<^verbatim>\<open>postfix_to_agraph\<close>
  (the assembly of the rows). Both are pure functions of their argument: they read the
  module tables \<^verbatim>\<open>operators\<close>, \<^verbatim>\<open>precedence\<close>, \<^verbatim>\<open>operator_map\<close> and the compiled
  pattern, and work on local lists.

  Python lists are HOL lists in the same order: \<^verbatim>\<open>xs.append(x)\<close> is \<open>xs @ [x]\<close>,
  \<^verbatim>\<open>xs[-1]\<close> is \<open>last xs\<close> and \<^verbatim>\<open>xs.pop()\<close> leaves \<open>butlast xs\<close>. Reading or popping
  the empty list raises \<^verbatim>\<open>IndexError\<close> in Python, so every such access is guarded in the
  model and the failure is a value. A token is a Python \<^verbatim>\<open>str\<close>, here a \<open>string\<close>.
\<close>

subsection \<open>Errors\<close>

text \<open>
  The exceptions the two functions can raise. \<^verbatim>\<open>RuntimeError\<close> carries its message; the
  other three are raised by the list, dictionary and \<^verbatim>\<open>int\<close> primitives.
\<close>

datatype error = RuntimeError string | IndexError | KeyError | ValueError

text \<open>
  The spec names the two \<^verbatim>\<open>RuntimeError\<close>s of the source by their meaning:
  \<^verbatim>\<open>raise RuntimeError("Mismatched parenthesis")\<close> (lines 29 and 37) and
  \<^verbatim>\<open>raise RuntimeError("Error evaluating postfix expression")\<close> (line 62).
\<close>

definition MismatchedParenthesesError :: error where
  "MismatchedParenthesesError = RuntimeError ''Mismatched parenthesis''"

definition MalformedExpressionError :: error where
  "MalformedExpressionError = RuntimeError ''Error evaluating postfix expression''"

subsection \<open>The operator tables\<close>

type_synonym token = string

text \<open>
  Modelled from the spec: the operator codes \<^verbatim>\<open>ADDITION\<close>, \<^verbatim>\<open>SUBTRACTION\<close>,
  \<^verbatim>\<open>MULTIPLICATION\<close>, \<^verbatim>\<open>DIVISION\<close>, \<^verbatim>\<open>POWER\<close>, \<^verbatim>\<open>VARIABLE\<close> and \<^verbatim>\<open>CONSTANT\<close> are
  imported from \<^verbatim>\<open>bingo.symbolic_regression.agraph.operator_definitions\<close>, which is not
  among the sources. The spec describes them as a closed enumeration of seven codes.
\<close>

datatype operator_code =
  ADDITION | SUBTRACTION | MULTIPLICATION | DIVISION | POWER | VARIABLE | CONSTANT

definition operators :: "token set" where
  "operators = {''+'', ''-'', ''*'', ''/'', ''^''}"

definition precedence :: "token \<rightharpoonup> int" where
  "precedence = [''+'' \<mapsto> 0, ''-'' \<mapsto> 0, ''*'' \<mapsto> 1, ''/'' \<mapsto> 1, ''^'' \<mapsto> 2]"

definition operator_map :: "token \<rightharpoonup> operator_code" where
  "operator_map = [''+'' \<mapsto> ADDITION, ''-'' \<mapsto> SUBTRACTION, ''*'' \<mapsto> MULTIPLICATION,
                   ''/'' \<mapsto> DIVISION, ''^'' \<mapsto> POWER, ''X'' \<mapsto> VARIABLE, ''C'' \<mapsto> CONSTANT]"

subsection \<open>The leaf pattern\<close>

text \<open>
  \<^verbatim>\<open>var_or_const_pattern = re.compile(r"([XC])_(\d+)")\<close>, used with \<^verbatim>\<open>fullmatch\<close>: the
  whole token is one of the letters X and C, an underscore and one or more decimal
  digits. The result is the pair of groups, or \<open>None\<close> when the token does not match.
  Among the characters of a \<open>string\<close> the class \<^verbatim>\<open>\d\<close> is the ten digits 0 to 9.
\<close>

definition digit_value :: "char \<rightharpoonup> int" where
  "digit_value = [CHR ''0'' \<mapsto> 0, CHR ''1'' \<mapsto> 1, CHR ''2'' \<mapsto> 2, CHR ''3'' \<mapsto> 3,
                  CHR ''4'' \<mapsto> 4, CHR ''5'' \<mapsto> 5, CHR ''6'' \<mapsto> 6, CHR ''7'' \<mapsto> 7,
                  CHR ''8'' \<mapsto> 8, CHR ''9'' \<mapsto> 9]"

definition is_digit :: "char \<Rightarrow> bool" where
  "is_digit c = (digit_value c \<noteq> None)"

definition var_or_const_pattern :: "token \<Rightarrow> (string \<times> string) option" where
  "var_or_const_pattern tok =
     (case tok of
        k # u # d # ds \<Rightarrow>
          if (k = CHR ''X'' \<or> k = CHR ''C'') \<and> u = CHR ''_'' \<and> list_all is_digit (d # ds)
          then Some ([k], d # ds) else None
      | _ \<Rightarrow> None)"

text \<open>
  \<^verbatim>\<open>int(s)\<close> on a string of decimal digits; any other string raises \<^verbatim>\<open>ValueError\<close>
  (the source calls it on the second group of a match only). Python integers are
  unbounded; the interpreter's optional limit on the number of digits that \<^verbatim>\<open>int\<close>
  converts is not part of the model.
\<close>

fun int_digits :: "int \<Rightarrow> string \<Rightarrow> int option" where
  "int_digits acc [] = Some acc"
| "int_digits acc (c # cs) =
     (case digit_value c of None \<Rightarrow> None | Some d \<Rightarrow> int_digits (10 * acc + d) cs)"

definition py_int :: "string \<Rightarrow> error + int" where
  "py_int s =
     (if s = [] then Inl ValueError
      else case int_digits 0 s of None \<Rightarrow> Inl ValueError | Some n \<Rightarrow> Inr n)"

subsection \<open>convert_to_postfix\<close>

text \<open>
  Lines 21 and 22, the loop of the operator branch:
  \<^verbatim>\<open>while len(stack) > 0 and stack[-1] in operators
        and precedence[stack[-1]] >= precedence[token]:
      output.append(stack.pop())\<close>
  The two dictionary reads raise \<^verbatim>\<open>KeyError\<close> on a missing key.
\<close>

function pop_higher_precedence ::
  "token \<Rightarrow> token list \<Rightarrow> token list \<Rightarrow> error + (token list \<times> token list)" where
  "pop_higher_precedence tok stack output =
     (if length stack > 0 \<and> last stack \<in> operators then
        (case precedence (last stack) of
           None \<Rightarrow> Inl KeyError
         | Some p \<Rightarrow>
            (case precedence tok of
               None \<Rightarrow> Inl KeyError
             | Some q \<Rightarrow>
                if p \<ge> q
                then pop_higher_precedence tok (butlast stack) (output @ [last stack])
                else Inr (stack, output)))
      else Inr (stack, output))"
  by pat_completeness auto
termination
  by (relation "measure (\<lambda>(tok, stack, output). length stack)") auto

text \<open>
  Lines 27 to 30, the loop of the closing parenthesis:
  \<^verbatim>\<open>while stack[-1] != "(":
      if len(stack) == 0:
          raise RuntimeError("Mismatched parenthesis")
      output.append(stack.pop())\<close>
  The loop condition reads \<^verbatim>\<open>stack[-1]\<close> before the body tests the length, so on the
  empty stack the read raises \<^verbatim>\<open>IndexError\<close>.
\<close>

function pop_until_open_paren ::
  "token list \<Rightarrow> token list \<Rightarrow> error + (token list \<times> token list)" where
  "pop_until_open_paren stack output =
     (if stack = [] then Inl IndexError
      else if last stack \<noteq> ''(''
      then (if length stack = 0 then Inl MismatchedParenthesesError
            else pop_until_open_paren (butlast stack) (output @ [last stack]))
      else Inr (stack, output))"
  by pat_completeness auto
termination
  by (relation "measure (\<lambda>(stack, output). length stack)") auto

text \<open>The body of the main loop (lines 20 to 33) on one token.\<close>

definition convert_step ::
  "token \<Rightarrow> token list \<times> token list \<Rightarrow> error + (token list \<times> token list)" where
  "convert_step tok st =
     (case st of (stack, output) \<Rightarrow>
        if tok \<in> operators then
          (case pop_higher_precedence tok stack output of
             Inl e \<Rightarrow> Inl e
           | Inr (stack', output') \<Rightarrow> Inr (stack' @ [tok], output'))
        else if tok = ''('' then Inr (stack @ [tok], output)
        else if tok = '')'' then
          (case pop_until_open_paren stack output of
             Inl e \<Rightarrow> Inl e
           | Inr (stack', output') \<Rightarrow>
               if stack' = [] then Inl IndexError else Inr (butlast stack', output'))
        else Inr (stack, output @ [tok]))"

fun convert_loop ::
  "token list \<Rightarrow> token list \<times> token list \<Rightarrow> error + (token list \<times> token list)" where
  "convert_loop [] st = Inr st"
| "convert_loop (tok # toks) st =
     (case convert_step tok st of Inl e \<Rightarrow> Inl e | Inr st' \<Rightarrow> convert_loop toks st')"

text \<open>
  Lines 35 to 38: \<^verbatim>\<open>for token in stack\<close> walks the stack from index 0, its bottom, and
  appends each token to the output unless it is an opening parenthesis.
\<close>

fun drain_stack :: "token list \<Rightarrow> token list \<Rightarrow> error + token list" where
  "drain_stack [] output = Inr output"
| "drain_stack (tok # rest) output =
     (if tok = ''('' then Inl MismatchedParenthesesError
      else drain_stack rest (output @ [tok]))"

definition convert_to_postfix :: "token list \<Rightarrow> error + token list" where
  "convert_to_postfix infix_tokens =
     (case convert_loop infix_tokens ([], []) of
        Inl e \<Rightarrow> Inl e
      | Inr (stack, output) \<Rightarrow> drain_stack stack output)"

subsection \<open>postfix_to_agraph\<close>

text \<open>
  A row of the command array is the three-element list \<^verbatim>\<open>[code, operand1, operand2]\<close>.
  The state of the loop is the index stack, the command array and the counter \<^verbatim>\<open>i\<close>.
\<close>

type_synonym command_row = "operator_code \<times> int \<times> int"

type_synonym agraph_state = "int list \<times> command_row list \<times> int"

text \<open>
  The body of the loop (lines 48 to 59). In the operator branch the first \<^verbatim>\<open>pop\<close> gives
  \<^verbatim>\<open>operands[0]\<close> and the second \<^verbatim>\<open>operands[1]\<close>; either raises \<^verbatim>\<open>IndexError\<close> on the
  empty stack. In the other branch lines 58 and 59 are outside the \<^verbatim>\<open>if match\<close>.
\<close>

definition agraph_step :: "token \<Rightarrow> agraph_state \<Rightarrow> error + agraph_state" where
  "agraph_step tok st =
     (case st of (stack, command_array, i) \<Rightarrow>
        if tok \<in> operators then
          (if length stack < 2 then Inl IndexError
           else case operator_map tok of
                  None \<Rightarrow> Inl KeyError
                | Some c \<Rightarrow>
                    Inr (butlast (butlast stack) @ [i],
                         command_array @ [(c, last (butlast stack), last stack)],
                         i + 1))
        else
          (case var_or_const_pattern tok of
             Some (g0, g1) \<Rightarrow>
               (case operator_map g0 of
                  None \<Rightarrow> Inl KeyError
                | Some c \<Rightarrow>
                    (case py_int g1 of
                       Inl e \<Rightarrow> Inl e
                     | Inr n \<Rightarrow> Inr (stack @ [i], command_array @ [(c, n, n)], i + 1)))
           | None \<Rightarrow> Inr (stack @ [i], command_array, i + 1)))"

fun agraph_loop :: "token list \<Rightarrow> agraph_state \<Rightarrow> error + agraph_state" where
  "agraph_loop [] st = Inr st"
| "agraph_loop (tok # toks) st =
     (case agraph_step tok st of Inl e \<Rightarrow> Inl e | Inr st' \<Rightarrow> agraph_loop toks st')"

definition postfix_to_agraph :: "token list \<Rightarrow> error + command_row list" where
  "postfix_to_agraph postfix_tokens =
     (case agraph_loop postfix_tokens ([], [], 0) of
        Inl e \<Rightarrow> Inl e
      | Inr (stack, command_array, i) \<Rightarrow>
          if length stack > 1 then Inl MalformedExpressionError else Inr command_array)"

text \<open>The two steps in sequence, as the main block of the module runs them.\<close>

definition compile :: "token list \<Rightarrow> error + command_row list" where
  "compile infix_tokens =
     (case convert_to_postfix infix_tokens of
        Inl e \<Rightarrow> Inl e
      | Inr postfix \<Rightarrow> postfix_to_agraph postfix)"

subsection \<open>Properties of the rows\<close>

text \<open>
  The binary arithmetic codes, and the back-reference invariant of the data model: in a
  command array whose first row has index \<open>k\<close>, both operands of every row with a binary
  code are smaller than the row's own index.
\<close>

fun is_binary :: "operator_code \<Rightarrow> bool" where
  "is_binary VARIABLE = False"
| "is_binary CONSTANT = False"
| "is_binary c = True"

fun back_references_from :: "int \<Rightarrow> command_row list \<Rightarrow> bool" where
  "back_references_from k [] = True"
| "back_references_from k ((c, a, b) # rows) =
     ((if is_binary c then a < k \<and> b < k else True) \<and> back_references_from (k + 1) rows)"

text \<open>
  The relation between the counter, the index stack and the rows that the assembler keeps
  as long as every index it pushes has a row: the counter is the number of rows, the
  indices on the stack are smaller than the counter, and the rows satisfy the
  back-reference invariant.
\<close>

definition agraph_inv :: "agraph_state \<Rightarrow> bool" where
  "agraph_inv st =
     (case st of (stack, command_array, i) \<Rightarrow>
        i = int (length command_array) \<and> list_all (\<lambda>x. x < i) stack
        \<and> back_references_from 0 command_array)"

subsection \<open>Parentheses of a token sequence\<close>

text \<open>
  Reading the tokens from the left with \<open>d\<close> parentheses open: \<open>unclosed_parens\<close>
  is the number of opening parentheses still open at the end, where a closing
  parenthesis closes the nearest open one and closes nothing when none is open;
  \<open>stray_close\<close> says that some closing parenthesis has no open one to its left.
\<close>

fun unclosed_parens :: "nat \<Rightarrow> token list \<Rightarrow> nat" where
  "unclosed_parens d [] = d"
| "unclosed_parens d (tok # toks) =
     (if tok = ''('' then unclosed_parens (d + 1) toks
      else if tok = '')'' then unclosed_parens (d - 1) toks
      else unclosed_parens d toks)"

fun stray_close :: "nat \<Rightarrow> token list \<Rightarrow> bool" where
  "stray_close d [] = False"
| "stray_close d (tok # toks) =
     (if tok = ''('' then stray_close (d + 1) toks
      else if tok = '')'' then (d = 0 \<or> stray_close (d - 1) toks)
      else stray_close d toks)"

subsection \<open>The pipeline as a transition system\<close>

text \<open>
  The same program as a relation between configurations, one for each point of the
  control flow: the head of the main loop of the converter (remaining tokens, side
  stack, output), the loop of the operator branch (with the token read), the loop of the
  closing parenthesis, the final loop over the side stack (the elements still to visit,
  output), the loop of the assembler (the postfix sequence it was called with, the
  remaining tokens, its state), and the two ways to end: the returned postfix sequence
  and command array, or the exception raised.
\<close>

datatype config =
    Convert "token list" "token list" "token list"
  | PopOperators token "token list" "token list" "token list"
  | PopParen "token list" "token list" "token list"
  | Drain "token list" "token list"
  | Assemble "token list" "token list" agraph_state
  | Returned "token list" "command_row list"
  | Raised error

text \<open>
  One step of the program. The rules follow the source line by line: the branches of the
  \<^verbatim>\<open>if\<close>/\<^verbatim>\<open>elif\<close> chain of line 20 to 33 with the conditions in the order they are tested,
  the two \<^verbatim>\<open>while\<close> loops with their conditions evaluated from the left, the final
  \<^verbatim>\<open>for\<close> loop over the side stack, and the loop and the length test of the assembler.
\<close>

inductive step :: "config \<Rightarrow> config \<Rightarrow> bool" where
  convert_operator:
    "tok \<in> operators \<Longrightarrow>
     step (Convert (tok # toks) stack out) (PopOperators tok toks stack out)"
| convert_open:
    "tok \<notin> operators \<Longrightarrow> tok = ''('' \<Longrightarrow>
     step (Convert (tok # toks) stack out) (Convert toks (stack @ [tok]) out)"
| convert_close:
    "tok \<notin> operators \<Longrightarrow> tok \<noteq> ''('' \<Longrightarrow> tok = '')'' \<Longrightarrow>
     step (Convert (tok # toks) stack out) (PopParen toks stack out)"
| convert_leaf:
    "tok \<notin> operators \<Longrightarrow> tok \<noteq> ''('' \<Longrightarrow> tok \<noteq> '')'' \<Longrightarrow>
     step (Convert (tok # toks) stack out) (Convert toks stack (out @ [tok]))"
| convert_end:
    "step (Convert [] stack out) (Drain stack out)"
| pop_operators_pop:
    "length stack > 0 \<Longrightarrow> last stack \<in> operators \<Longrightarrow>
     precedence (last stack) = Some p \<Longrightarrow> precedence tok = Some q \<Longrightarrow> p \<ge> q \<Longrightarrow>
     step (PopOperators tok toks stack out)
          (PopOperators tok toks (butlast stack) (out @ [last stack]))"
| pop_operators_missing_top:
    "length stack > 0 \<Longrightarrow> last stack \<in> operators \<Longrightarrow>
     precedence (last stack) = None \<Longrightarrow>
     step (PopOperators tok toks stack out) (Raised KeyError)"
| pop_operators_missing_token:
    "length stack > 0 \<Longrightarrow> last stack \<in> operators \<Longrightarrow>
     precedence (last stack) = Some p \<Longrightarrow> precedence tok = None \<Longrightarrow>
     step (PopOperators tok toks stack out) (Raised KeyError)"
| pop_operators_lower:
    "length stack > 0 \<Longrightarrow> last stack \<in> operators \<Longrightarrow>
     precedence (last stack) = Some p \<Longrightarrow> precedence tok = Some q \<Longrightarrow> \<not> p \<ge> q \<Longrightarrow>
     step (PopOperators tok toks stack out) (Convert toks (stack @ [tok]) out)"
| pop_operators_no_operator:
    "length stack > 0 \<Longrightarrow> last stack \<notin> operators \<Longrightarrow>
     step (PopOperators tok toks stack out) (Convert toks (stack @ [tok]) out)"
| pop_operators_empty:
    "\<not> length stack > 0 \<Longrightarrow>
     step (PopOperators tok toks stack out) (Convert toks (stack @ [tok]) out)"
| pop_paren_empty:
    "stack = [] \<Longrightarrow> step (PopParen toks stack out) (Raised IndexError)"
| pop_paren_pop:
    "stack \<noteq> [] \<Longrightarrow> last stack \<noteq> ''('' \<Longrightarrow> length stack \<noteq> 0 \<Longrightarrow>
     step (PopParen toks stack out) (PopParen toks (butlast stack) (out @ [last stack]))"
| pop_paren_mismatch:
    "stack \<noteq> [] \<Longrightarrow> last stack \<noteq> ''('' \<Longrightarrow> length stack = 0 \<Longrightarrow>
     step (PopParen toks stack out) (Raised MismatchedParenthesesError)"
| pop_paren_found:
    "stack \<noteq> [] \<Longrightarrow> last stack = ''('' \<Longrightarrow>
     step (PopParen toks stack out) (Convert toks (butlast stack) out)"
| drain_open:
    "tok = ''('' \<Longrightarrow> step (Drain (tok # rest) out) (Raised MismatchedParenthesesError)"
| drain_append:
    "tok \<noteq> ''('' \<Longrightarrow> step (Drain (tok # rest) out) (Drain rest (out @ [tok]))"
| drain_end:
    "step (Drain [] out) (Assemble out out ([], [], 0))"
| assemble_underflow:
    "tok \<in> operators \<Longrightarrow> length stack < 2 \<Longrightarrow>
     step (Assemble postfix (tok # toks) (stack, command_array, i)) (Raised IndexError)"
| assemble_missing_operator:
    "tok \<in> operators \<Longrightarrow> \<not> length stack < 2 \<Longrightarrow> operator_map tok = None \<Longrightarrow>
     step (Assemble postfix (tok # toks) (stack, command_array, i)) (Raised KeyError)"
| assemble_operator:
    "tok \<in> operators \<Longrightarrow> \<not> length stack < 2 \<Longrightarrow> operator_map tok = Some c \<Longrightarrow>
     step (Assemble postfix (tok # toks) (stack, command_array, i))
          (Assemble postfix toks
             (butlast (butlast stack) @ [i],
              command_array @ [(c, last (butlast stack), last stack)], i + 1))"
| assemble_missing_kind:
    "tok \<notin> operators \<Longrightarrow> var_or_const_pattern tok = Some (g0, g1) \<Longrightarrow>
     operator_map g0 = None \<Longrightarrow>
     step (Assemble postfix (tok # toks) (stack, command_array, i)) (Raised KeyError)"
| assemble_bad_int:
    "tok \<notin> operators \<Longrightarrow> var_or_const_pattern tok = Some (g0, g1) \<Longrightarrow>
     operator_map g0 = Some c \<Longrightarrow> py_int g1 = Inl e \<Longrightarrow>
     step (Assemble postfix (tok # toks) (stack, command_array, i)) (Raised e)"
| assemble_leaf:
    "tok \<notin> operators \<Longrightarrow> var_or_const_pattern tok = Some (g0, g1) \<Longrightarrow>
     operator_map g0 = Some c \<Longrightarrow> py_int g1 = Inr n \<Longrightarrow>
     step (Assemble postfix (tok # toks) (stack, command_array, i))
          (Assemble postfix toks (stack @ [i], command_array @ [(c, n, n)], i + 1))"
| assemble_unmatched:
    "tok \<notin> operators \<Longrightarrow> var_or_const_pattern tok = None \<Longrightarrow>
     step (Assemble postfix (tok # toks) (stack, command_array, i))
          (Assemble postfix toks (stack @ [i], command_array, i + 1))"
| assemble_malformed:
    "length stack > 1 \<Longrightarrow>
     step (Assemble postfix [] (stack, command_array, i)) (Raised MalformedExpressionError)"
| assemble_return:
    "\<not> length stack > 1 \<Longrightarrow>
     step (Assemble postfix [] (stack, command_array, i)) (Returned postfix command_array)"

text \<open>
  A run of the pipeline on the infix tokens starts at the head of the loop of the
  converter with both lists empty, and ends when the program has returned or raised.
\<close>

fun final :: "config \<Rightarrow> bool" where
  "final (Returned postfix command_array) = True"
| "final (Raised e) = True"
| "final c = False"

definition runs :: "token list \<Rightarrow> config \<Rightarrow> bool" where
  "runs infix_tokens c = (step\<^sup>*\<^sup>* (Convert infix_tokens [] []) c \<and> final c)"

text \<open>The outcome of the pipeline according to the two functions above.\<close>

definition outcome :: "token list \<Rightarrow> config" where
  "outcome infix_tokens =
     (case convert_to_postfix infix_tokens of
        Inl e \<Rightarrow> Raised e
      | Inr postfix \<Rightarrow>
          (case postfix_to_agraph postfix of
             Inl e \<Rightarrow> Raised e
           | Inr command_array \<Rightarrow> Returned postfix command_array))"

section \<open>Evaluation lemmas\<close>

declare pop_higher_precedence.simps [simp del]

declare pop_until_open_paren.simps [simp del]

lemmas convert_defs =
  convert_to_postfix_def convert_step_def operators_def precedence_def
  pop_higher_precedence.simps pop_until_open_paren.simps MismatchedParenthesesError_def

lemmas agraph_defs =
  postfix_to_agraph_def agraph_step_def operator_map_def
  var_or_const_pattern_def is_digit_def digit_value_def py_int_def
  MalformedExpressionError_def

section \<open>The side stack and the parentheses\<close>

text \<open>
  The number of opening parentheses on the side stack follows the parentheses read so
  far: the operator loop pops operators only, and the loop of a closing parenthesis
  stops at the topmost opening one.
\<close>

lemma operators_have_precedence: "tok \<in> operators \<Longrightarrow> \<exists>p. precedence tok = Some p"
  by (auto simp: operators_def precedence_def)

lemma open_paren_not_operator: "''('' \<notin> operators"
  by (simp add: operators_def)

lemma close_paren_not_operator: "'')'' \<notin> operators"
  by (simp add: operators_def)

lemma count_butlast:
  "stack \<noteq> [] \<Longrightarrow> last stack \<noteq> x \<Longrightarrow> count_list (butlast stack) x = count_list stack x"
proof -
  assume a: "stack \<noteq> []" and b: "last stack \<noteq> x"
  from a have "count_list stack x = count_list (butlast stack @ [last stack]) x" by simp
  also have "\<dots> = count_list (butlast stack) x" using b by (simp del: append_butlast_last_id)
  finally show ?thesis by simp
qed

lemma count_butlast_open:
  "stack \<noteq> [] \<Longrightarrow> last stack = x \<Longrightarrow> count_list (butlast stack) x = count_list stack x - 1"
proof -
  assume a: "stack \<noteq> []" and b: "last stack = x"
  from a have "count_list stack x = count_list (butlast stack @ [last stack]) x" by simp
  also have "\<dots> = count_list (butlast stack) x + 1" using b by (simp del: append_butlast_last_id)
  finally show ?thesis by simp
qed

lemma pop_higher_precedence_ok:
  "tok \<in> operators \<Longrightarrow>
   \<exists>stack' out'. pop_higher_precedence tok stack out = Inr (stack', out')
      \<and> count_list stack' ''('' = count_list stack ''(''"
proof (induction tok stack out rule: pop_higher_precedence.induct)
  case (1 tok stack out)
  obtain q where q: "precedence tok = Some q"
    using operators_have_precedence [OF "1.prems"] by blast
  show ?case
  proof (cases "length stack > 0 \<and> last stack \<in> operators")
    case False
    then show ?thesis by (subst pop_higher_precedence.simps) auto
  next
    case True
    then obtain p where p: "precedence (last stack) = Some p"
      using operators_have_precedence by blast
    from True have ne: "stack \<noteq> []" and nopen: "last stack \<noteq> ''(''"
      using open_paren_not_operator by auto
    show ?thesis
    proof (cases "p \<ge> q")
      case False
      with True p q show ?thesis
        by (simp add: pop_higher_precedence.simps [of tok stack out])
    next
      case ge: True
      from "1.IH" [OF True p q ge "1.prems"]
      obtain s' o' where r: "pop_higher_precedence tok (butlast stack) (out @ [last stack]) = Inr (s', o')"
        and c: "count_list s' ''('' = count_list (butlast stack) ''(''" by blast
      from True p q ge r have "pop_higher_precedence tok stack out = Inr (s', o')"
        by (simp add: pop_higher_precedence.simps [of tok stack out])
      moreover have "count_list s' ''('' = count_list stack ''(''"
        using c count_butlast [OF ne nopen] by simp
      ultimately show ?thesis by blast
    qed
  qed
qed

lemma pop_until_open_paren_found:
  "count_list stack ''('' > 0 \<Longrightarrow>
   \<exists>stack' out'. pop_until_open_paren stack out = Inr (stack', out')
      \<and> stack' \<noteq> [] \<and> last stack' = ''(''
      \<and> count_list stack' ''('' = count_list stack ''(''"
proof (induction stack out rule: pop_until_open_paren.induct)
  case (1 stack out)
  from "1.prems" have ne: "stack \<noteq> []" by auto
  show ?case
  proof (cases "last stack = ''(''")
    case True
    with ne show ?thesis by (simp add: pop_until_open_paren.simps [of stack out])
  next
    case False
    from ne have len: "length stack \<noteq> 0" by simp
    have "count_list (butlast stack) ''('' = count_list stack ''(''"
      using count_butlast [OF ne False] .
    with "1.IH" [OF ne False len] "1.prems"
    obtain s' o' where r: "pop_until_open_paren (butlast stack) (out @ [last stack]) = Inr (s', o')"
      and p: "s' \<noteq> []" "last s' = ''(''" "count_list s' ''('' = count_list stack ''(''"
      by auto
    from ne False r have "pop_until_open_paren stack out = Inr (s', o')"
      by (simp add: pop_until_open_paren.simps [of stack out])
    with p show ?thesis by blast
  qed
qed

lemma pop_until_open_paren_missing:
  "count_list stack ''('' = 0 \<Longrightarrow> pop_until_open_paren stack out = Inl IndexError"
proof (induction stack out rule: pop_until_open_paren.induct)
  case (1 stack out)
  show ?case
  proof (cases "stack = []")
    case True
    then show ?thesis by (subst pop_until_open_paren.simps) simp
  next
    case ne: False
    from "1.prems" have "''('' \<notin> set stack" by (simp add: count_list_0_iff)
    with ne have nopen: "last stack \<noteq> ''(''" using last_in_set by metis
    from ne have len: "length stack \<noteq> 0" by simp
    have "count_list (butlast stack) ''('' = 0"
      using count_butlast [OF ne nopen] "1.prems" by simp
    from "1.IH" [OF ne nopen len this] ne nopen show ?thesis
      by (simp add: pop_until_open_paren.simps [of stack out])
  qed
qed


lemma convert_step_operator:
  assumes "tok \<in> operators"
  shows "\<exists>stack' out'. convert_step tok (stack, out) = Inr (stack', out')
           \<and> count_list stack' ''('' = count_list stack ''(''"
proof -
  obtain s' o' where r: "pop_higher_precedence tok stack out = Inr (s', o')"
    and c: "count_list s' ''('' = count_list stack ''(''"
    using pop_higher_precedence_ok [OF assms] by blast
  from assms have "tok \<noteq> ''(''" using open_paren_not_operator by auto
  with assms r c show ?thesis by (simp add: convert_step_def)
qed

lemma convert_step_open: "convert_step ''('' (stack, out) = Inr (stack @ [''(''], out)"
  by (simp add: convert_step_def open_paren_not_operator)

lemma convert_step_close_found:
  assumes "count_list stack ''('' > 0"
  shows "\<exists>stack' out'. convert_step '')'' (stack, out) = Inr (stack', out')
           \<and> count_list stack' ''('' = count_list stack ''('' - 1"
proof -
  obtain s' o' where r: "pop_until_open_paren stack out = Inr (s', o')"
    and p: "s' \<noteq> []" "last s' = ''(''" "count_list s' ''('' = count_list stack ''(''"
    using pop_until_open_paren_found [OF assms] by blast
  have "count_list (butlast s') ''('' = count_list stack ''('' - 1"
    using count_butlast_open [OF p(1) p(2)] p(3) by simp
  with r p(1) show ?thesis by (simp add: convert_step_def close_paren_not_operator)
qed

lemma convert_step_close_missing:
  "count_list stack ''('' = 0 \<Longrightarrow> convert_step '')'' (stack, out) = Inl IndexError"
  by (simp add: convert_step_def close_paren_not_operator pop_until_open_paren_missing)

lemma convert_step_leaf:
  "tok \<notin> operators \<Longrightarrow> tok \<noteq> ''('' \<Longrightarrow> tok \<noteq> '')'' \<Longrightarrow>
   convert_step tok (stack, out) = Inr (stack, out @ [tok])"
  by (simp add: convert_step_def)

lemma convert_loop_balance:
  "(stray_close (count_list stack ''('') toks \<longrightarrow>
      convert_loop toks (stack, out) = Inl IndexError) \<and>
   (\<not> stray_close (count_list stack ''('') toks \<longrightarrow>
      (\<exists>stack' out'. convert_loop toks (stack, out) = Inr (stack', out')
         \<and> count_list stack' ''('' = unclosed_parens (count_list stack ''('') toks))"
proof (induction toks arbitrary: stack out)
  case Nil
  show ?case by simp
next
  case (Cons tok toks)
  consider (operator) "tok \<in> operators" | (open_paren) "tok = ''(''" | (close_paren) "tok = '')''"
    | (leaf) "tok \<notin> operators" "tok \<noteq> ''(''" "tok \<noteq> '')''"
    by blast
  then show ?case
  proof cases
    case operator
    then have np: "tok \<noteq> ''(''" "tok \<noteq> '')''"
      using open_paren_not_operator close_paren_not_operator by auto
    obtain s' o' where r: "convert_step tok (stack, out) = Inr (s', o')"
      and c: "count_list s' ''('' = count_list stack ''(''"
      using convert_step_operator [OF operator] by blast
    from Cons.IH [of s' o'] r c np show ?thesis by simp
  next
    case open_paren
    from Cons.IH [of "stack @ [''('']" out] open_paren show ?thesis
      by (simp add: convert_step_open)
  next
    case close_paren
    show ?thesis
    proof (cases "count_list stack ''('' = 0")
      case True
      with close_paren show ?thesis by (simp add: convert_step_close_missing)
    next
      case False
      then have pos: "count_list stack ''('' > 0" by simp
      obtain s' o' where r: "convert_step '')'' (stack, out) = Inr (s', o')"
        and c: "count_list s' ''('' = count_list stack ''('' - 1"
        using convert_step_close_found [OF pos] by blast
      from Cons.IH [of s' o'] r c close_paren False show ?thesis by simp
    qed
  next
    case leaf
    from Cons.IH [of stack "out @ [tok]"] leaf show ?thesis
      by (simp add: convert_step_leaf)
  qed
qed

lemma drain_stack_open_paren:
  "''('' \<in> set stack \<Longrightarrow> drain_stack stack out = Inl MismatchedParenthesesError"
  by (induction stack arbitrary: out) auto

section \<open>The concrete scenarios\<close>

text \<open>
  C2: the tokens X_0 + X_1 + C_0 + C_1 are converted to the postfix sequence
  X_0 X_1 + C_0 + C_1 +, and assembling that sequence gives the seven rows of the spec;
  the loop ends with the single index 6 on the index stack, the root.
\<close>

theorem scenario_sum_of_four:
  "convert_to_postfix [''X_0'', ''+'', ''X_1'', ''+'', ''C_0'', ''+'', ''C_1'']
     = Inr [''X_0'', ''X_1'', ''+'', ''C_0'', ''+'', ''C_1'', ''+'']
   \<and> postfix_to_agraph [''X_0'', ''X_1'', ''+'', ''C_0'', ''+'', ''C_1'', ''+'']
     = Inr [(VARIABLE, 0, 0), (VARIABLE, 1, 1), (ADDITION, 0, 1), (CONSTANT, 0, 0),
            (ADDITION, 2, 3), (CONSTANT, 1, 1), (ADDITION, 4, 5)]
   \<and> agraph_loop [''X_0'', ''X_1'', ''+'', ''C_0'', ''+'', ''C_1'', ''+''] ([], [], 0)
     = Inr ([6],
            [(VARIABLE, 0, 0), (VARIABLE, 1, 1), (ADDITION, 0, 1), (CONSTANT, 0, 0),
             (ADDITION, 2, 3), (CONSTANT, 1, 1), (ADDITION, 4, 5)],
            7)"
  by (simp add: convert_defs agraph_defs)

text \<open>
  C10: on the empty postfix sequence the assembler raises nothing and returns the empty
  command array; the index stack is empty at the end, so there is no root.
\<close>

theorem empty_postfix_returns_empty_array:
  "postfix_to_agraph [] = Inr [] \<and> agraph_loop [] ([], [], 0) = Inr ([], [], 0)"
  by (simp add: postfix_to_agraph_def)

text \<open>
  C1: on X_0 + X_1 * X_2 the final loop of \<^verbatim>\<open>convert_to_postfix\<close> walks the side stack
  [+, *] from its bottom, so the postfix sequence is X_0 X_1 X_2 + * and not
  X_0 X_1 X_2 * +. The assembled root, row 4, is a Multiplication of row 0 (X_0) and
  row 3, and row 3 is the Addition of X_1 and X_2: the array stands for
  X_0 * (X_1 + X_2).
\<close>

theorem precedence_scenario_root_is_multiplication:
  "convert_to_postfix [''X_0'', ''+'', ''X_1'', ''*'', ''X_2'']
     = Inr [''X_0'', ''X_1'', ''X_2'', ''+'', ''*'']
   \<and> agraph_loop [''X_0'', ''X_1'', ''X_2'', ''+'', ''*''] ([], [], 0)
     = Inr ([4],
            [(VARIABLE, 0, 0), (VARIABLE, 1, 1), (VARIABLE, 2, 2), (ADDITION, 1, 2),
             (MULTIPLICATION, 0, 3)],
            5)
   \<and> compile [''X_0'', ''+'', ''X_1'', ''*'', ''X_2'']
     = Inr [(VARIABLE, 0, 0), (VARIABLE, 1, 1), (VARIABLE, 2, 2), (ADDITION, 1, 2),
            (MULTIPLICATION, 0, 3)]"
  by (simp add: compile_def convert_defs agraph_defs)

text \<open>
  C3: on the single token ")" the side stack is empty when the loop condition reads
  \<^verbatim>\<open>stack[-1]\<close>, and the converter fails with \<^verbatim>\<open>IndexError\<close>, which is not the
  \<^verbatim>\<open>RuntimeError\<close> for mismatched parentheses.
\<close>

theorem stray_close_paren_raises_IndexError:
  "convert_to_postfix ['')''] = Inl IndexError
   \<and> convert_to_postfix ['')''] \<noteq> Inl MismatchedParenthesesError"
  by (simp add: convert_defs)

text \<open>
  C4: the postfix sequence foo X_0 + is assembled without an error into two rows; the
  token foo takes index 0 without a row, so the Addition at row 1 has the operands 0
  and 1, and its second operand is not smaller than its own index.
\<close>

theorem phantom_index_breaks_back_references:
  "postfix_to_agraph [''foo'', ''X_0'', ''+''] = Inr [(VARIABLE, 0, 0), (ADDITION, 0, 1)]
   \<and> \<not> back_references_from 0 [(VARIABLE, 0, 0), (ADDITION, 0, 1)]"
  by (simp add: agraph_defs operators_def)

section \<open>Parentheses that do not match\<close>

text \<open>
  Whenever some closing parenthesis has no open one to its left, the converter fails with
  \<^verbatim>\<open>IndexError\<close>: the test of line 28 is never reached on the empty stack.
\<close>

lemma stray_close_IndexError:
  "stray_close 0 toks \<Longrightarrow> convert_to_postfix toks = Inl IndexError"
  using convert_loop_balance [of "[]" toks "[]"] by (simp add: convert_to_postfix_def)

text \<open>
  C7, as amended: for every token sequence in which every closing parenthesis has an
  open one to its left and some opening parenthesis is never closed, the main loop of
  the converter ends without an error and the final loop over the side stack raises the
  \<^verbatim>\<open>RuntimeError\<close> for mismatched parentheses.
\<close>

theorem unclosed_open_paren_raises:
  assumes "\<not> stray_close 0 toks" and "unclosed_parens 0 toks > 0"
  shows "(\<exists>stack out. convert_loop toks ([], []) = Inr (stack, out)
            \<and> drain_stack stack out = Inl MismatchedParenthesesError)
         \<and> convert_to_postfix toks = Inl MismatchedParenthesesError"
proof -
  from assms(1) obtain stack out where r: "convert_loop toks ([], []) = Inr (stack, out)"
    and c: "count_list stack ''('' = unclosed_parens 0 toks"
    using convert_loop_balance [of "[]" toks "[]"] by auto
  from c assms(2) have "''('' \<in> set stack"
    using count_list_0_iff [of stack "''(''"] by auto
  then have d: "drain_stack stack out = Inl MismatchedParenthesesError"
    by (rule drain_stack_open_paren)
  with r show ?thesis by (simp add: convert_to_postfix_def)
qed

theorem unclosed_open_paren_raises_witness:
  "\<not> stray_close 0 [''('', ''X_0'', ''+'', ''X_1''] \<and>
   unclosed_parens 0 [''('', ''X_0'', ''+'', ''X_1''] > 0 \<and>
   convert_loop [''('', ''X_0'', ''+'', ''X_1''] ([], []) = Inr ([''('', ''+''], [''X_0'', ''X_1'']) \<and>
   convert_to_postfix [''('', ''X_0'', ''+'', ''X_1''] = Inl MismatchedParenthesesError"
  using unclosed_open_paren_raises [of "[''('', ''X_0'', ''+'', ''X_1'']"]
  by (simp add: convert_step_def operators_def pop_higher_precedence.simps)

text \<open>
  The claim C7 as stated fails on the tokens ")" "(": the opening parenthesis is never
  closed, and the converter fails on the first token with \<^verbatim>\<open>IndexError\<close> before it
  reaches the final loop.
\<close>

theorem unclosed_after_stray_close_counterexample:
  "unclosed_parens 0 ['')'', ''(''] > 0 \<and>
   convert_to_postfix ['')'', ''(''] = Inl IndexError \<and>
   convert_to_postfix ['')'', ''(''] \<noteq> Inl MismatchedParenthesesError"
  by (simp add: convert_to_postfix_def convert_step_def operators_def
      pop_until_open_paren.simps MismatchedParenthesesError_def)

section \<open>Associativity\<close>

text \<open>Single steps of the two inner loops of the converter.\<close>

lemma pop_higher_precedence_empty: "pop_higher_precedence tok [] out = Inr ([], out)"
  by (subst pop_higher_precedence.simps) simp

lemma pop_higher_precedence_open_paren:
  "pop_higher_precedence tok (stack @ [''('']) out = Inr (stack @ [''(''], out)"
  by (subst pop_higher_precedence.simps) (simp add: open_paren_not_operator)

lemma pop_higher_precedence_pop:
  "t \<in> operators \<Longrightarrow> precedence t = Some p \<Longrightarrow> precedence tok = Some q \<Longrightarrow> p \<ge> q \<Longrightarrow>
   pop_higher_precedence tok (stack @ [t]) out = pop_higher_precedence tok stack (out @ [t])"
  by (subst pop_higher_precedence.simps) simp

lemma pop_until_open_paren_stop:
  "pop_until_open_paren (stack @ [''('']) out = Inr (stack @ [''(''], out)"
  by (subst pop_until_open_paren.simps) simp

lemma pop_until_open_paren_pop:
  "t \<noteq> ''('' \<Longrightarrow>
   pop_until_open_paren (stack @ [t]) out = pop_until_open_paren stack (out @ [t])"
  by (subst pop_until_open_paren.simps) simp

text \<open>
  C5: two operators of equal precedence between three leaf tokens are converted
  left-associatively, whichever operators they are (the power operator included): the
  postfix sequence of a o1 b o2 c is a b o1 c o2, the same as that of (a o1 b) o2 c and
  not that of a o1 (b o2 c). For X_0 - X_1 - X_2 the command array is that of
  (X_0 - X_1) - X_2: the root, row 4, is a Subtraction whose left operand is row 2, the
  Subtraction of X_0 and X_1; the array of X_0 - (X_1 - X_2) is a different one.
\<close>

theorem equal_precedence_left_associative:
  assumes o1: "o1 \<in> operators" and o2: "o2 \<in> operators"
    and eq: "precedence o1 = precedence o2"
    and a: "a \<notin> operators" "a \<noteq> ''(''" "a \<noteq> '')''"
    and b: "b \<notin> operators" "b \<noteq> ''(''" "b \<noteq> '')''"
    and c: "c \<notin> operators" "c \<noteq> ''(''" "c \<noteq> '')''"
  shows "convert_to_postfix [a, o1, b, o2, c] = Inr [a, b, o1, c, o2]
       \<and> convert_to_postfix [''('', a, o1, b, '')'', o2, c] = Inr [a, b, o1, c, o2]
       \<and> convert_to_postfix [a, o1, ''('', b, o2, c, '')''] = Inr [a, b, c, o2, o1]
       \<and> compile [''X_0'', ''-'', ''X_1'', ''-'', ''X_2'']
           = Inr [(VARIABLE, 0, 0), (VARIABLE, 1, 1), (SUBTRACTION, 0, 1), (VARIABLE, 2, 2),
                  (SUBTRACTION, 2, 3)]
       \<and> compile [''('', ''X_0'', ''-'', ''X_1'', '')'', ''-'', ''X_2'']
           = Inr [(VARIABLE, 0, 0), (VARIABLE, 1, 1), (SUBTRACTION, 0, 1), (VARIABLE, 2, 2),
                  (SUBTRACTION, 2, 3)]
       \<and> compile [''X_0'', ''-'', ''('', ''X_1'', ''-'', ''X_2'', '')'']
           = Inr [(VARIABLE, 0, 0), (VARIABLE, 1, 1), (VARIABLE, 2, 2), (SUBTRACTION, 1, 2),
                  (SUBTRACTION, 0, 3)]"
proof -
  obtain p where p1: "precedence o1 = Some p"
    using operators_have_precedence [OF o1] by blast
  with eq have p2: "precedence o2 = Some p" by simp
  from o1 o2 have np: "o1 \<noteq> ''(''" "o1 \<noteq> '')''" "o2 \<noteq> ''(''" "o2 \<noteq> '')''"
    using open_paren_not_operator close_paren_not_operator by auto
  have pop1: "\<And>stack out. pop_higher_precedence o2 (stack @ [o1]) out
                = pop_higher_precedence o2 stack (out @ [o1])"
    using pop_higher_precedence_pop [OF o1 p1 p2] by simp
  have plain: "convert_to_postfix [a, o1, b, o2, c] = Inr [a, b, o1, c, o2]"
    using o1 o2 a b c np pop1 [of "[]"]
    by (simp add: convert_to_postfix_def convert_step_def pop_higher_precedence_empty)
  have left: "convert_to_postfix [''('', a, o1, b, '')'', o2, c] = Inr [a, b, o1, c, o2]"
    using o1 o2 a b c np pop_higher_precedence_open_paren [of o1 "[]"]
      pop_until_open_paren_pop [of o1 "[''('']"] pop_until_open_paren_stop [of "[]"]
    by (simp add: convert_to_postfix_def convert_step_def pop_higher_precedence_empty
        open_paren_not_operator close_paren_not_operator)
  have right: "convert_to_postfix [a, o1, ''('', b, o2, c, '')''] = Inr [a, b, c, o2, o1]"
    using o1 o2 a b c np pop_higher_precedence_open_paren [of o2 "[o1]"]
      pop_until_open_paren_pop [of o2 "[o1, ''('']"] pop_until_open_paren_stop [of "[o1]"]
    by (simp add: convert_to_postfix_def convert_step_def pop_higher_precedence_empty
        open_paren_not_operator close_paren_not_operator)
  have c1: "compile [''X_0'', ''-'', ''X_1'', ''-'', ''X_2'']
           = Inr [(VARIABLE, 0, 0), (VARIABLE, 1, 1), (SUBTRACTION, 0, 1), (VARIABLE, 2, 2),
                  (SUBTRACTION, 2, 3)]"
    by (simp add: compile_def convert_defs agraph_defs)
  have c2: "compile [''('', ''X_0'', ''-'', ''X_1'', '')'', ''-'', ''X_2'']
           = Inr [(VARIABLE, 0, 0), (VARIABLE, 1, 1), (SUBTRACTION, 0, 1), (VARIABLE, 2, 2),
                  (SUBTRACTION, 2, 3)]"
    by (simp add: compile_def convert_defs agraph_defs)
  have c3: "compile [''X_0'', ''-'', ''('', ''X_1'', ''-'', ''X_2'', '')'']
           = Inr [(VARIABLE, 0, 0), (VARIABLE, 1, 1), (VARIABLE, 2, 2), (SUBTRACTION, 1, 2),
                  (SUBTRACTION, 0, 3)]"
    by (simp add: compile_def convert_defs agraph_defs)
  from plain left right c1 c2 c3 show ?thesis by blast
qed

theorem equal_precedence_left_associative_witness:
  "''^'' \<in> operators \<and> precedence ''^'' = precedence ''^'' \<and>
   ''X_0'' \<notin> operators \<and> ''X_1'' \<notin> operators \<and> ''X_2'' \<notin> operators \<and>
   convert_to_postfix [''X_0'', ''^'', ''X_1'', ''^'', ''X_2'']
     = Inr [''X_0'', ''X_1'', ''^'', ''X_2'', ''^''] \<and>
   convert_to_postfix [''('', ''X_0'', ''^'', ''X_1'', '')'', ''^'', ''X_2'']
     = Inr [''X_0'', ''X_1'', ''^'', ''X_2'', ''^''] \<and>
   convert_to_postfix [''X_0'', ''^'', ''('', ''X_1'', ''^'', ''X_2'', '')'']
     = Inr [''X_0'', ''X_1'', ''X_2'', ''^'', ''^'']"
  using equal_precedence_left_associative
    [of "''^''" "''^''" "''X_0''" "''X_1''" "''X_2''"]
  by (simp add: operators_def)

section \<open>The assembler\<close>

text \<open>
  C6: whenever the loop of the assembler ends with more than one index on the index
  stack, \<^verbatim>\<open>postfix_to_agraph\<close> raises the \<^verbatim>\<open>RuntimeError\<close> for a malformed expression
  and returns no command array.
\<close>

theorem residual_indices_raise_malformed:
  "agraph_loop postfix_tokens ([], [], 0) = Inr (stack, command_array, i) \<Longrightarrow>
   length stack > 1 \<Longrightarrow>
   postfix_to_agraph postfix_tokens = Inl MalformedExpressionError"
  by (simp add: postfix_to_agraph_def)

theorem residual_indices_raise_malformed_witness:
  "agraph_loop [''X_0'', ''X_1''] ([], [], 0)
     = Inr ([0, 1], [(VARIABLE, 0, 0), (VARIABLE, 1, 1)], 2) \<and>
   length [0, 1 :: int] > 1 \<and>
   postfix_to_agraph [''X_0'', ''X_1''] = Inl MalformedExpressionError"
proof -
  have l: "agraph_loop [''X_0'', ''X_1''] ([], [], 0)
     = Inr ([0, 1], [(VARIABLE, 0, 0), (VARIABLE, 1, 1)], 2)"
    by (simp add: agraph_defs operators_def)
  have n: "length [0, 1 :: int] > 1" by simp
  from residual_indices_raise_malformed [OF l n] l n show ?thesis by simp
qed

text \<open>
  C8: on a token that is no operator and does not match the leaf pattern, the loop body
  leaves the command array as it is, pushes the counter on the index stack and
  increments the counter. From the initial state the index 0 is on the stack and the
  returned command array has no row.
\<close>

theorem unmatched_leaf_pushes_index_without_row:
  "tok \<notin> operators \<Longrightarrow> var_or_const_pattern tok = None \<Longrightarrow>
   agraph_step tok (stack, command_array, i) = Inr (stack @ [i], command_array, i + 1)
   \<and> agraph_loop [tok] ([], [], 0) = Inr ([0], [], 1)
   \<and> postfix_to_agraph [tok] = Inr []"
  by (simp add: agraph_step_def postfix_to_agraph_def)

theorem unmatched_leaf_pushes_index_without_row_witness:
  "''foo'' \<notin> operators \<and> var_or_const_pattern ''foo'' = None \<and>
   agraph_step ''foo'' ([5], [(VARIABLE, 0, 0)], 7) = Inr ([5, 7], [(VARIABLE, 0, 0)], 8) \<and>
   agraph_loop [''foo''] ([], [], 0) = Inr ([0], [], 1) \<and>
   postfix_to_agraph [''foo''] = Inr []"
proof -
  have a: "''foo'' \<notin> operators" by (simp add: operators_def)
  have b: "var_or_const_pattern ''foo'' = None" by (simp add: var_or_const_pattern_def)
  from unmatched_leaf_pushes_index_without_row [OF a b, of "[5]" "[(VARIABLE, 0, 0)]" 7] a b
  show ?thesis by simp
qed

section \<open>Back references when every leaf token matches\<close>

text \<open>
  When every token of the postfix sequence is an operator or matches the leaf pattern,
  every pushed index has its row and the returned command array satisfies the
  back-reference invariant; the array of the scenario foo X_0 + above breaks it through
  the token that does not match.
\<close>

lemma back_references_snoc:
  "back_references_from k (rows @ [(c, a, b)]) =
     (back_references_from k rows \<and>
      (if is_binary c then a < k + int (length rows) \<and> b < k + int (length rows) else True))"
  by (induction k rows rule: back_references_from.induct) (auto simp: algebra_simps)

lemma var_or_const_pattern_groups:
  "var_or_const_pattern tok = Some (g0, g1) \<Longrightarrow>
   (g0 = ''X'' \<or> g0 = ''C'') \<and> g1 \<noteq> [] \<and> list_all is_digit g1"
  by (auto simp: var_or_const_pattern_def split: list.splits if_splits)

lemma int_digits_total: "list_all is_digit ds \<Longrightarrow> \<exists>n. int_digits acc ds = Some n"
  by (induction ds arbitrary: acc) (auto simp: is_digit_def)

lemma py_int_total: "ds \<noteq> [] \<Longrightarrow> list_all is_digit ds \<Longrightarrow> \<exists>n. py_int ds = Inr n"
  using int_digits_total [of ds 0] by (auto simp: py_int_def)

lemma leaf_code_not_binary:
  "g0 = ''X'' \<or> g0 = ''C'' \<Longrightarrow> operator_map g0 = Some c \<Longrightarrow> \<not> is_binary c"
  by (auto simp: operator_map_def)

lemma agraph_step_inv:
  assumes inv: "agraph_inv st"
    and ok: "tok \<in> operators \<or> var_or_const_pattern tok \<noteq> None"
    and step: "agraph_step tok st = Inr st'"
  shows "agraph_inv st'"
proof -
  obtain stack ca i where st: "st = (stack, ca, i)" by (cases st) auto
  from inv st have i: "i = int (length ca)" and lt: "list_all (\<lambda>x. x < i) stack"
    and br: "back_references_from 0 ca" by (auto simp: agraph_inv_def)
  show ?thesis
  proof (cases "tok \<in> operators")
    case True
    with step st have len: "\<not> length stack < 2"
      by (auto simp: agraph_step_def split: if_splits)
    with step st True obtain c where
      st': "st' = (butlast (butlast stack) @ [i],
                   ca @ [(c, last (butlast stack), last stack)], i + 1)"
      by (auto simp: agraph_step_def split: option.splits)
    from len have ne: "stack \<noteq> []" "butlast stack \<noteq> []" by (cases stack; auto)+
    then have "last stack \<in> set stack" "last (butlast stack) \<in> set stack"
      using last_in_set in_set_butlastD by metis+
    with lt have ops: "last stack < i" "last (butlast stack) < i"
      by (auto simp: list_all_iff)
    have "list_all (\<lambda>x. x < i + 1) (butlast (butlast stack) @ [i])"
      using lt by (fastforce simp: list_all_iff dest: in_set_butlastD)
    with ops br i st' show ?thesis
      by (simp add: agraph_inv_def back_references_snoc)
  next
    case False
    with ok obtain g0 g1 where m: "var_or_const_pattern tok = Some (g0, g1)" by auto
    from var_or_const_pattern_groups [OF m]
    have g: "g0 = ''X'' \<or> g0 = ''C''" "g1 \<noteq> []" "list_all is_digit g1" by auto
    from step st False m obtain c n where c: "operator_map g0 = Some c"
      and st': "st' = (stack @ [i], ca @ [(c, n, n)], i + 1)"
      by (auto simp: agraph_step_def split: option.splits sum.splits)
    have "list_all (\<lambda>x. x < i + 1) (stack @ [i])"
      using lt by (fastforce simp: list_all_iff)
    with leaf_code_not_binary [OF g(1) c] br i st' show ?thesis
      by (simp add: agraph_inv_def back_references_snoc)
  qed
qed

lemma agraph_loop_inv:
  "agraph_inv st \<Longrightarrow>
   list_all (\<lambda>tok. tok \<in> operators \<or> var_or_const_pattern tok \<noteq> None) toks \<Longrightarrow>
   agraph_loop toks st = Inr st' \<Longrightarrow> agraph_inv st'"
proof (induction toks arbitrary: st)
  case Nil
  then show ?case by simp
next
  case (Cons tok toks)
  from Cons.prems(3) obtain st1 where s1: "agraph_step tok st = Inr st1"
    and l: "agraph_loop toks st1 = Inr st'"
    by (auto split: sum.splits)
  from Cons.prems(2) have ok: "tok \<in> operators \<or> var_or_const_pattern tok \<noteq> None"
    and rest: "list_all (\<lambda>tok. tok \<in> operators \<or> var_or_const_pattern tok \<noteq> None) toks"
    by auto
  from Cons.IH [OF agraph_step_inv [OF Cons.prems(1) ok s1] rest l] show ?case .
qed

lemma back_references_without_phantom:
  assumes "list_all (\<lambda>tok. tok \<in> operators \<or> var_or_const_pattern tok \<noteq> None) toks"
    and "postfix_to_agraph toks = Inr command_array"
  shows "back_references_from 0 command_array"
proof -
  from assms(2) obtain stack i where
    l: "agraph_loop toks ([], [], 0) = Inr (stack, command_array, i)"
    by (auto simp: postfix_to_agraph_def split: sum.splits if_splits)
  have "agraph_inv ([], [], 0)" by (simp add: agraph_inv_def)
  from agraph_loop_inv [OF this assms(1) l] show ?thesis by (simp add: agraph_inv_def)
qed

section \<open>Determinism\<close>

text \<open>
  No configuration has two different successors, and a final configuration has none, so
  two runs from the same configuration end in the same final configuration.
\<close>

lemma step_deterministic: "step c c1 \<Longrightarrow> step c c2 \<Longrightarrow> c1 = c2"
  by (induction rule: step.induct) (erule step.cases; simp; fail)+

lemma final_no_step: "final c \<Longrightarrow> \<not> step c c'"
  by (auto elim: step.cases)


lemma runs_unique:
  "step\<^sup>*\<^sup>* c c1 \<Longrightarrow> final c1 \<Longrightarrow> step\<^sup>*\<^sup>* c c2 \<Longrightarrow> final c2 \<Longrightarrow> c1 = c2"
proof (induction rule: converse_rtranclp_induct)
  case base
  from base(2) show ?case
  proof (cases rule: converse_rtranclpE)
    case base
    then show ?thesis by simp
  next
    case (step y)
    with final_no_step [OF base(1)] show ?thesis by blast
  qed
next
  case (step c c')
  from step.prems(2) show ?case
  proof (cases rule: converse_rtranclpE)
    case base
    with step.hyps(1) final_no_step [OF step.prems(3)] show ?thesis by blast
  next
    case (step y)
    with step_deterministic [OF \<open>step c c'\<close>] have "step\<^sup>*\<^sup>* c' c2" by blast
    from step.IH [OF step.prems(1) this step.prems(3)] show ?thesis .
  qed
qed

lemma pop_operators_run:
  "step\<^sup>*\<^sup>* (PopOperators tok toks stack out)
     (case pop_higher_precedence tok stack out of
        Inl e \<Rightarrow> Raised e
      | Inr (stack', out') \<Rightarrow> Convert toks (stack' @ [tok]) out')"
proof (induction tok stack out rule: pop_higher_precedence.induct)
  case (1 tok stack out)
  show ?case
  proof (cases "length stack > 0 \<and> last stack \<in> operators")
    case False
    then have r: "pop_higher_precedence tok stack out = Inr (stack, out)"
      by (subst pop_higher_precedence.simps) auto
    have "step (PopOperators tok toks stack out) (Convert toks (stack @ [tok]) out)"
    proof (cases "length stack > 0")
      case nonempty: True
      with False have "last stack \<notin> operators" by simp
      with nonempty show ?thesis by (rule pop_operators_no_operator)
    next
      case empty: False
      then show ?thesis by (rule pop_operators_empty)
    qed
    with r show ?thesis by auto
  next
    case True
    show ?thesis
    proof (cases "precedence (last stack)")
      case None
      with True have r: "pop_higher_precedence tok stack out = Inl KeyError"
        by (subst pop_higher_precedence.simps) simp
      from True None have "step (PopOperators tok toks stack out) (Raised KeyError)"
        by (auto intro: pop_operators_missing_top)
      with r show ?thesis by auto
    next
      case (Some p)
      show ?thesis
      proof (cases "precedence tok")
        case None
        with True Some have r: "pop_higher_precedence tok stack out = Inl KeyError"
          by (subst pop_higher_precedence.simps) simp
        from True Some None have "step (PopOperators tok toks stack out) (Raised KeyError)"
          by (auto intro: pop_operators_missing_token)
        with r show ?thesis by auto
      next
        case q: (Some q)
        show ?thesis
        proof (cases "p \<ge> q")
          case False
          with True Some q have r: "pop_higher_precedence tok stack out = Inr (stack, out)"
            by (subst pop_higher_precedence.simps) simp
          from True Some q False
          have "step (PopOperators tok toks stack out) (Convert toks (stack @ [tok]) out)"
            by (auto intro: pop_operators_lower)
          with r show ?thesis by auto
        next
          case ge: True
          with True Some q have r: "pop_higher_precedence tok stack out
              = pop_higher_precedence tok (butlast stack) (out @ [last stack])"
            by (subst pop_higher_precedence.simps) simp
          from True Some q ge
          have "step (PopOperators tok toks stack out)
                  (PopOperators tok toks (butlast stack) (out @ [last stack]))"
            by (auto intro: pop_operators_pop)
          with "1.IH" [OF True Some q ge] r show ?thesis
            by (simp add: converse_rtranclp_into_rtranclp)
        qed
      qed
    qed
  qed
qed

lemma pop_paren_run:
  "step\<^sup>*\<^sup>* (PopParen toks stack out)
     (case pop_until_open_paren stack out of
        Inl e \<Rightarrow> Raised e
      | Inr (stack', out') \<Rightarrow>
          if stack' = [] then Raised IndexError else Convert toks (butlast stack') out')"
proof (induction stack out rule: pop_until_open_paren.induct)
  case (1 stack out)
  show ?case
  proof (cases "stack = []")
    case True
    then have r: "pop_until_open_paren stack out = Inl IndexError"
      by (subst pop_until_open_paren.simps) simp
    from True have "step (PopParen toks stack out) (Raised IndexError)"
      by (rule pop_paren_empty)
    with r show ?thesis by auto
  next
    case ne: False
    then have len: "length stack \<noteq> 0" by simp
    show ?thesis
    proof (cases "last stack = ''(''")
      case True
      with ne have r: "pop_until_open_paren stack out = Inr (stack, out)"
        by (subst pop_until_open_paren.simps) simp
      from ne True have "step (PopParen toks stack out) (Convert toks (butlast stack) out)"
        by (rule pop_paren_found)
      with r ne show ?thesis by auto
    next
      case False
      with ne have r: "pop_until_open_paren stack out
          = pop_until_open_paren (butlast stack) (out @ [last stack])"
        by (subst pop_until_open_paren.simps) simp
      from ne False len
      have "step (PopParen toks stack out) (PopParen toks (butlast stack) (out @ [last stack]))"
        by (rule pop_paren_pop)
      with "1.IH" [OF ne False len] r show ?thesis
        by (simp add: converse_rtranclp_into_rtranclp)
    qed
  qed
qed

lemma convert_run:
  "step\<^sup>*\<^sup>* (Convert toks stack out)
     (case convert_loop toks (stack, out) of
        Inl e \<Rightarrow> Raised e
      | Inr (stack', out') \<Rightarrow> Drain stack' out')"
proof (induction toks arbitrary: stack out)
  case Nil
  show ?case by (auto intro: convert_end)
next
  case (Cons tok toks)
  let ?next = "\<lambda>st. case convert_loop toks st of
                       Inl e \<Rightarrow> Raised e | Inr (stack', out') \<Rightarrow> Drain stack' out'"
  have first: "step\<^sup>*\<^sup>* (Convert (tok # toks) stack out)
     (case convert_step tok (stack, out) of
        Inl e \<Rightarrow> Raised e | Inr (stack', out') \<Rightarrow> Convert toks stack' out')"
  proof -
    consider (operator) "tok \<in> operators"
      | (open_paren) "tok \<notin> operators" "tok = ''(''"
      | (close_paren) "tok \<notin> operators" "tok \<noteq> ''(''" "tok = '')''"
      | (leaf) "tok \<notin> operators" "tok \<noteq> ''(''" "tok \<noteq> '')''"
      by blast
    then show ?thesis
    proof cases
      case operator
      then have "step (Convert (tok # toks) stack out) (PopOperators tok toks stack out)"
        by (rule convert_operator)
      from converse_rtranclp_into_rtranclp [of step, OF this pop_operators_run [of tok toks stack out]]
      show ?thesis using operator
        by (auto simp: convert_step_def split: sum.splits)
    next
      case open_paren
      then have "step (Convert (tok # toks) stack out) (Convert toks (stack @ [tok]) out)"
        by (rule convert_open)
      with open_paren show ?thesis by (auto simp: convert_step_def)
    next
      case close_paren
      then have "step (Convert (tok # toks) stack out) (PopParen toks stack out)"
        by (rule convert_close)
      from converse_rtranclp_into_rtranclp [of step, OF this pop_paren_run [of toks stack out]]
      show ?thesis using close_paren
        by (auto simp: convert_step_def split: sum.splits)
    next
      case leaf
      then have "step (Convert (tok # toks) stack out) (Convert toks stack (out @ [tok]))"
        by (rule convert_leaf)
      with leaf show ?thesis by (auto simp: convert_step_def)
    qed
  qed
  show ?case
  proof (cases "convert_step tok (stack, out)")
    case (Inl e)
    with first show ?thesis by simp
  next
    case (Inr st)
    obtain s' o' where st: "st = (s', o')" by (cases st) auto
    from first Inr st have "step\<^sup>*\<^sup>* (Convert (tok # toks) stack out) (Convert toks s' o')"
      by simp
    from rtranclp_trans [of step, OF this Cons.IH [of s' o']] Inr st show ?thesis by simp
  qed
qed

lemma drain_run:
  "step\<^sup>*\<^sup>* (Drain stack out)
     (case drain_stack stack out of
        Inl e \<Rightarrow> Raised e
      | Inr postfix \<Rightarrow> Assemble postfix postfix ([], [], 0))"
proof (induction stack arbitrary: out)
  case Nil
  show ?case by (auto intro: drain_end)
next
  case (Cons tok rest)
  show ?case
  proof (cases "tok = ''(''")
    case True
    then have "step (Drain (tok # rest) out) (Raised MismatchedParenthesesError)"
      by (rule drain_open)
    with True show ?thesis by auto
  next
    case False
    then have "step (Drain (tok # rest) out) (Drain rest (out @ [tok]))"
      by (rule drain_append)
    from converse_rtranclp_into_rtranclp [of step, OF this Cons.IH [of "out @ [tok]"]] False
    show ?thesis by simp
  qed
qed

lemma assemble_step:
  "step (Assemble postfix (tok # toks) st)
     (case agraph_step tok st of
        Inl e \<Rightarrow> Raised e | Inr st' \<Rightarrow> Assemble postfix toks st')"
proof -
  obtain stack ca i where st: "st = (stack, ca, i)" by (cases st) auto
  show ?thesis
    unfolding st agraph_step_def
    by (auto split: option.splits sum.splits
        intro: assemble_underflow assemble_missing_operator assemble_operator
          assemble_missing_kind assemble_bad_int assemble_leaf assemble_unmatched)
qed

lemma assemble_run:
  "step\<^sup>*\<^sup>* (Assemble postfix toks st)
     (case agraph_loop toks st of
        Inl e \<Rightarrow> Raised e | Inr st' \<Rightarrow> Assemble postfix [] st')"
proof (induction toks arbitrary: st)
  case Nil
  show ?case by simp
next
  case (Cons tok toks)
  show ?case
  proof (cases "agraph_step tok st")
    case (Inl e)
    with assemble_step [of postfix tok toks st] show ?thesis by auto
  next
    case (Inr st')
    with assemble_step [of postfix tok toks st]
    have "step (Assemble postfix (tok # toks) st) (Assemble postfix toks st')" by simp
    from converse_rtranclp_into_rtranclp [of step, OF this Cons.IH [of st']] Inr
    show ?thesis by simp
  qed
qed

lemma assemble_end:
  "step (Assemble postfix [] (stack, command_array, i))
     (if length stack > 1 then Raised MalformedExpressionError
      else Returned postfix command_array)"
  by (auto intro: assemble_malformed assemble_return)

lemma postfix_run:
  "step\<^sup>*\<^sup>* (Assemble postfix postfix ([], [], 0))
     (case postfix_to_agraph postfix of
        Inl e \<Rightarrow> Raised e | Inr command_array \<Rightarrow> Returned postfix command_array)"
proof (cases "agraph_loop postfix ([], [], 0)")
  case (Inl e)
  with assemble_run [of postfix postfix "([], [], 0)"] show ?thesis
    by (simp add: postfix_to_agraph_def)
next
  case (Inr st)
  obtain stack ca i where st: "st = (stack, ca, i)" by (cases st) auto
  from assemble_run [of postfix postfix "([], [], 0)"] Inr st
  have "step\<^sup>*\<^sup>* (Assemble postfix postfix ([], [], 0)) (Assemble postfix [] (stack, ca, i))"
    by simp
  from rtranclp.rtrancl_into_rtrancl [of step, OF this assemble_end [of postfix stack ca i]]
    Inr st
  show ?thesis by (auto simp: postfix_to_agraph_def split: if_splits)
qed

lemma final_outcome: "final (outcome toks)"
  by (simp add: outcome_def split: sum.splits)

lemma runs_outcome: "runs toks (outcome toks)"
proof -
  have "step\<^sup>*\<^sup>* (Convert toks [] []) (outcome toks)"
  proof (cases "convert_loop toks ([], [])")
    case (Inl e)
    with convert_run [of toks "[]" "[]"] show ?thesis
      by (simp add: outcome_def convert_to_postfix_def)
  next
    case (Inr st)
    obtain stack out where st: "st = (stack, out)" by (cases st) auto
    from convert_run [of toks "[]" "[]"] Inr st
    have a: "step\<^sup>*\<^sup>* (Convert toks [] []) (Drain stack out)" by simp
    show ?thesis
    proof (cases "drain_stack stack out")
      case (Inl e)
      with rtranclp_trans [of step, OF a drain_run [of stack out]] Inr st show ?thesis
        by (simp add: outcome_def convert_to_postfix_def)
    next
      case postfix: (Inr postfix)
      with rtranclp_trans [of step, OF a drain_run [of stack out]]
      have "step\<^sup>*\<^sup>* (Convert toks [] []) (Assemble postfix postfix ([], [], 0))" by simp
      from rtranclp_trans [of step, OF this postfix_run [of postfix]] Inr st postfix
      show ?thesis by (simp add: outcome_def convert_to_postfix_def)
    qed
  qed
  with final_outcome show ?thesis by (simp add: runs_def)
qed

text \<open>
  C9: two runs of the pipeline on the same infix tokens end in the same final
  configuration: the same postfix sequence and the same command array, or the same
  exception. By \<open>runs_outcome\<close> every token sequence has such a run, the one the two
  functions compute.
\<close>

theorem two_runs_agree:
  "runs infix_tokens r1 \<Longrightarrow> runs infix_tokens r2 \<Longrightarrow> r1 = r2"
  unfolding runs_def using runs_unique by blast

theorem two_runs_agree_witness:
  "runs [''X_0'', ''+'', ''X_1''] (outcome [''X_0'', ''+'', ''X_1'']) \<and>
   runs [''X_0'', ''+'', ''X_1'']
     (Returned [''X_0'', ''X_1'', ''+''] [(VARIABLE, 0, 0), (VARIABLE, 1, 1), (ADDITION, 0, 1)]) \<and>
   outcome [''X_0'', ''+'', ''X_1'']
     = Returned [''X_0'', ''X_1'', ''+''] [(VARIABLE, 0, 0), (VARIABLE, 1, 1), (ADDITION, 0, 1)]"
proof -
  let ?T = "[''X_0'', ''+'', ''X_1'']"
  let ?R = "Returned [''X_0'', ''X_1'', ''+''] [(VARIABLE, 0, 0), (VARIABLE, 1, 1), (ADDITION, 0, 1)]"
  have a: "runs ?T (outcome ?T)" by (rule runs_outcome)
  have "outcome ?T = ?R" by (simp add: outcome_def convert_defs agraph_defs)
  with a have b: "runs ?T ?R" by simp
  from two_runs_agree [OF a b] a b show ?thesis by simp
qed

end
